theory Spec2Isabelle
  imports Main
begin

section \<open>Data model (src/database.py, tables of \<open>_create_tables\<close>)\<close>

text \<open>
  Instants (\<open>datetime.now()\<close>, the TIMESTAMP columns) are integers: microseconds of the
  process-wide naive local clock since a fixed origin. The source stores instants as ISO
  text and compares the text; on ISO text of one shape that order is the order of the
  instants, which is what the integer order stands for. Every function that reads the
  clock takes the instant \<open>now\<close> as an argument.
\<close>

type_synonym timestamp = int

record team =
  team_id :: int
  name :: string
  owner_id :: int
  invite_code :: string
  subscription_type :: "string option"

record team_member =
  member_team_id :: int
  member_user_id :: int
  role :: string

record task =
  task_id :: int
  task_team_id :: int
  title :: string
  description :: "string option"
  assignee_id :: "int option"
  author_id :: int
  deadline :: "timestamp option"
  priority :: string
  status :: string
  updated_at :: timestamp
  completed_at :: "timestamp option"

record reminder =
  reminder_task_id :: int
  reminder_type :: string

record database =
  teams :: "team list"
  team_members :: "team_member list"
  tasks :: "task list"
  reminders :: "reminder list"

text \<open>Python truthiness of a nullable integer column: \<open>None\<close> and \<open>0\<close> are falsy.\<close>

fun truthy :: "int option \<Rightarrow> bool" where
  "truthy None = False"
| "truthy (Some i) = (i \<noteq> 0)"

text \<open>SQL \<open>COALESCE(a, b)\<close>.\<close>

fun COALESCE :: "'a option \<Rightarrow> 'a option \<Rightarrow> 'a option" where
  "COALESCE (Some a) b = Some a"
| "COALESCE None b = b"

section \<open>Store operations (src/database.py)\<close>

text \<open>
  A method of the source that wraps its statement in \<open>try ... except sqlite3.Error\<close>
  takes a flag \<open>exec_ok\<close>: \<open>True\<close> when the statement executes, \<open>False\<close> when the engine
  raises and the \<open>except\<close> branch runs. The plain SELECT methods have no such branch
  and are total reads of the tables.
\<close>

definition get_team :: "database \<Rightarrow> int \<Rightarrow> team option" where
  "get_team db tid = find (\<lambda>t. team_id t = tid) (teams db)"

definition get_team_member_count :: "database \<Rightarrow> int \<Rightarrow> int" where
  "get_team_member_count db tid =
     int (length (filter (\<lambda>m. member_team_id m = tid) (team_members db)))"

definition get_task :: "database \<Rightarrow> int \<Rightarrow> task option" where
  "get_task db tid = find (\<lambda>t. task_id t = tid) (tasks db)"

definition get_active_tasks_count :: "database \<Rightarrow> int \<Rightarrow> int" where
  "get_active_tasks_count db tid =
     int (length (filter (\<lambda>t. task_team_id t = tid \<and> status t \<in> {''todo'', ''in_progress''})
                         (tasks db)))"

text \<open>
  \<open>update_task_status\<close>: \<open>completed_at = now if status == "done" else None\<close>, then
  \<open>UPDATE tasks SET status = ?, updated_at = ?, completed_at = COALESCE(?, completed_at)
  WHERE task_id = ?\<close>.
\<close>

definition set_status :: "timestamp \<Rightarrow> string \<Rightarrow> task \<Rightarrow> task" where
  "set_status now s t =
     t\<lparr>status := s, updated_at := now,
       completed_at := COALESCE (if s = ''done'' then Some now else None) (completed_at t)\<rparr>"

definition update_task_status ::
  "bool \<Rightarrow> timestamp \<Rightarrow> int \<Rightarrow> string \<Rightarrow> database \<Rightarrow> bool \<times> database" where
  "update_task_status exec_ok now tid s db =
     (if exec_ok
      then (True, db\<lparr>tasks := map (\<lambda>t. if task_id t = tid then set_status now s t else t)
                                   (tasks db)\<rparr>)
      else (False, db))"

definition is_reminder_sent :: "database \<Rightarrow> int \<Rightarrow> string \<Rightarrow> bool" where
  "is_reminder_sent db tid rtype =
     (find (\<lambda>r. reminder_task_id r = tid \<and> reminder_type r = rtype) (reminders db) \<noteq> None)"

definition mark_reminder_sent :: "bool \<Rightarrow> int \<Rightarrow> string \<Rightarrow> database \<Rightarrow> database" where
  "mark_reminder_sent exec_ok tid rtype db =
     (if exec_ok
      then db\<lparr>reminders := reminders db @ [\<lparr>reminder_task_id = tid, reminder_type = rtype\<rparr>]\<rparr>
      else db)"

section \<open>Subscription limits (src/config.py, src/utils/validators.py)\<close>

record limits =
  max_members :: int
  max_tasks :: int
  reminders_feature :: bool
  calendar_export :: bool
  analytics :: bool

text \<open>The three limits that \<open>config.py\<close> reads from the environment.\<close>

record environment =
  FREE_MEMBER_LIMIT :: int
  FREE_TASK_LIMIT :: int
  PRO_MEMBER_LIMIT :: int

definition free_limits :: "environment \<Rightarrow> limits" where
  "free_limits env =
     \<lparr>max_members = FREE_MEMBER_LIMIT env, max_tasks = FREE_TASK_LIMIT env,
      reminders_feature = False, calendar_export = False, analytics = False\<rparr>"

definition pro_limits :: "environment \<Rightarrow> limits" where
  "pro_limits env =
     \<lparr>max_members = PRO_MEMBER_LIMIT env, max_tasks = 999999,
      reminders_feature = True, calendar_export = True, analytics = True\<rparr>"

definition enterprise_limits :: limits where
  "enterprise_limits =
     \<lparr>max_members = 999999, max_tasks = 999999,
      reminders_feature = True, calendar_export = True, analytics = True\<rparr>"

definition SUBSCRIPTION_LIMITS :: "environment \<Rightarrow> string \<rightharpoonup> limits" where
  "SUBSCRIPTION_LIMITS env =
     [''free'' \<mapsto> free_limits env, ''pro'' \<mapsto> pro_limits env,
      ''enterprise'' \<mapsto> enterprise_limits]"

text \<open>\<open>SUBSCRIPTION_LIMITS.get(plan, SUBSCRIPTION_LIMITS["free"])\<close>; a NULL plan is no key.\<close>

definition limits_of_plan :: "environment \<Rightarrow> string option \<Rightarrow> limits" where
  "limits_of_plan env plan =
     (case plan of
        None \<Rightarrow> free_limits env
      | Some p \<Rightarrow> (case SUBSCRIPTION_LIMITS env p of
                     None \<Rightarrow> free_limits env
                   | Some l \<Rightarrow> l))"

text \<open>
  The dictionary a limit check returns: \<open>{"allowed": False, "error": ...}\<close> for a missing
  team, and \<open>{"allowed", "current", "limit", "plan"}\<close> otherwise.
\<close>

datatype limit_check =
    TeamNotFound
  | Decision (current: int) (limit: int) (plan: "string option") bool

fun allowed :: "limit_check \<Rightarrow> bool" where
  "allowed TeamNotFound = False"
| "allowed (Decision c l p a) = a"

definition check_task_limit :: "environment \<Rightarrow> database \<Rightarrow> int \<Rightarrow> limit_check" where
  "check_task_limit env db tid =
     (case get_team db tid of
        None \<Rightarrow> TeamNotFound
      | Some tm \<Rightarrow>
          (let plan = subscription_type tm;
               lim = limits_of_plan env plan;
               cur = get_active_tasks_count db tid
           in Decision cur (max_tasks lim) plan (cur < max_tasks lim)))"

definition check_member_limit :: "environment \<Rightarrow> database \<Rightarrow> int \<Rightarrow> limit_check" where
  "check_member_limit env db tid =
     (case get_team db tid of
        None \<Rightarrow> TeamNotFound
      | Some tm \<Rightarrow>
          (let plan = subscription_type tm;
               lim = limits_of_plan env plan;
               cur = get_team_member_count db tid
           in Decision cur (max_members lim) plan (cur < max_members lim)))"

section \<open>Chat transport\<close>

text \<open>
  What is sent is kept as data, not as rendered text: a deadline reminder is determined by
  the task and the window kind (\<open>_format_reminder\<close>), a status notice by the task and the
  new status (the display name of the changer is left out), a daily summary by its lines.
\<close>

datatype digest_line =
    TeamHeader string
  | TodayLine task
  | OverdueHeader
  | OverdueLine task

datatype message =
    Reminder task string
  | StatusChanged task string
  | Summary "digest_line list"

text \<open>
  \<open>bot.send_message(chat_id, text)\<close> is the external transport: \<open>send c m\<close> is \<open>True\<close> when
  the call returns and \<open>False\<close> when it raises. An attempt records the recipient, the
  message and that outcome.
\<close>

type_synonym transport = "int \<Rightarrow> message \<Rightarrow> bool"

type_synonym attempt = "int \<times> message \<times> bool"

section \<open>Deadline sweep (src/scheduler/reminders.py, \<open>check_upcoming_deadlines\<close>)\<close>

definition timedelta :: "int \<Rightarrow> int \<Rightarrow> int" where
  "timedelta hours minutes = (hours * 60 + minutes) * 60000000"

definition windows :: "timestamp \<Rightarrow> (string \<times> timestamp \<times> timestamp) list" where
  "windows now =
     [(''24h'', now + timedelta 23 30, now + timedelta 24 30),
      (''3h'', now + timedelta 2 30, now + timedelta 3 30),
      (''now'', now - timedelta 0 15, now + timedelta 0 15)]"

text \<open>
  \<open>SELECT t.*, tm.name FROM tasks t JOIN teams tm ON t.team_id = tm.team_id
  WHERE t.status IN ('todo', 'in_progress') AND t.deadline BETWEEN ? AND ?\<close>.
\<close>

definition get_upcoming_tasks :: "database \<Rightarrow> timestamp \<Rightarrow> timestamp \<Rightarrow> task list" where
  "get_upcoming_tasks db start stop =
     [t. t \<leftarrow> tasks db, tm \<leftarrow> teams db, task_team_id t = team_id tm,
         status t \<in> {''todo'', ''in_progress''},
         (case deadline t of None \<Rightarrow> False | Some d \<Rightarrow> start \<le> d \<and> d \<le> stop)]"

text \<open>
  One pass of the inner loop body. \<open>ins_ok tid rtype\<close> says whether the INSERT of
  \<open>mark_reminder_sent\<close> executes for that pair. The mark is inside the \<open>try\<close>, after the
  send: it is reached only when the send returns.
\<close>

definition remind_task ::
  "transport \<Rightarrow> (int \<Rightarrow> string \<Rightarrow> bool) \<Rightarrow> string \<Rightarrow> task \<Rightarrow> database \<times> attempt list
     \<Rightarrow> database \<times> attempt list" where
  "remind_task send ins_ok rtype t st =
     (case st of (db, att) \<Rightarrow>
        if is_reminder_sent db (task_id t) rtype then (db, att)
        else if \<not> truthy (assignee_id t) then (db, att)
        else (case assignee_id t of
                None \<Rightarrow> (db, att)
              | Some a \<Rightarrow>
                  if send a (Reminder t rtype)
                  then (mark_reminder_sent (ins_ok (task_id t) rtype) (task_id t) rtype db,
                        att @ [(a, Reminder t rtype, True)])
                  else (db, att @ [(a, Reminder t rtype, False)])))"

fun remind_tasks ::
  "transport \<Rightarrow> (int \<Rightarrow> string \<Rightarrow> bool) \<Rightarrow> string \<Rightarrow> task list \<Rightarrow> database \<times> attempt list
     \<Rightarrow> database \<times> attempt list" where
  "remind_tasks send ins_ok rtype [] st = st"
| "remind_tasks send ins_ok rtype (t # ts) st =
     remind_tasks send ins_ok rtype ts (remind_task send ins_ok rtype t st)"

fun sweep_windows ::
  "transport \<Rightarrow> (int \<Rightarrow> string \<Rightarrow> bool) \<Rightarrow> (string \<times> timestamp \<times> timestamp) list
     \<Rightarrow> database \<times> attempt list \<Rightarrow> database \<times> attempt list" where
  "sweep_windows send ins_ok [] st = st"
| "sweep_windows send ins_ok ((rtype, start, stop) # ws) st =
     sweep_windows send ins_ok ws
       (remind_tasks send ins_ok rtype (get_upcoming_tasks (fst st) start stop) st)"

definition check_upcoming_deadlines ::
  "transport \<Rightarrow> (int \<Rightarrow> string \<Rightarrow> bool) \<Rightarrow> timestamp \<Rightarrow> database \<Rightarrow> database \<times> attempt list" where
  "check_upcoming_deadlines send ins_ok now db = sweep_windows send ins_ok (windows now) (db, [])"

text \<open>
  A candidate is delivered and recorded when it has an assignee, its send returns and the
  INSERT of its dispatch record executes.
\<close>

definition delivered :: "transport \<Rightarrow> (int \<Rightarrow> string \<Rightarrow> bool) \<Rightarrow> string \<Rightarrow> task \<Rightarrow> bool" where
  "delivered send ins_ok rtype t =
     (case assignee_id t of
        None \<Rightarrow> False
      | Some a \<Rightarrow> a \<noteq> 0 \<and> send a (Reminder t rtype) \<and> ins_ok (task_id t) rtype)"

section \<open>Daily summary (src/scheduler/reminders.py, \<open>send_daily_summary\<close>)\<close>

definition date_of :: "timestamp \<Rightarrow> int" where
  "date_of d = d div 86400000000"

definition deadline_key :: "task \<Rightarrow> timestamp" where
  "deadline_key t = (case deadline t of None \<Rightarrow> 0 | Some d \<Rightarrow> d)"

text \<open>
  \<open>WHERE team_id = ? AND DATE(deadline) = ? AND status NOT IN ('done', 'cancelled')
  ORDER BY deadline ASC\<close>.
\<close>

definition get_tasks_today :: "database \<Rightarrow> timestamp \<Rightarrow> int \<Rightarrow> task list" where
  "get_tasks_today db now tid =
     sort_key deadline_key
       (filter (\<lambda>t. task_team_id t = tid
                  \<and> (case deadline t of None \<Rightarrow> False | Some d \<Rightarrow> date_of d = date_of now)
                  \<and> status t \<notin> {''done'', ''cancelled''})
               (tasks db))"

text \<open>\<open>WHERE status IN ('todo', 'in_progress') AND deadline < ? ORDER BY deadline ASC\<close>.\<close>

definition get_overdue_tasks :: "database \<Rightarrow> timestamp \<Rightarrow> task list" where
  "get_overdue_tasks db now =
     sort_key deadline_key
       (filter (\<lambda>t. status t \<in> {''todo'', ''in_progress''}
                  \<and> (case deadline t of None \<Rightarrow> False | Some d \<Rightarrow> d < now))
               (tasks db))"

text \<open>
  \<open>SELECT DISTINCT tm.user_id, tm.team_id, t.name FROM team_members tm
  JOIN teams t ON tm.team_id = t.team_id\<close>.
\<close>

definition all_members :: "database \<Rightarrow> (int \<times> int \<times> string) list" where
  "all_members db =
     remdups [(member_user_id m, member_team_id m, name tm).
                m \<leftarrow> team_members db, tm \<leftarrow> teams db, member_team_id m = team_id tm]"

text \<open>
  The grouping loop. \<open>user_teams\<close> is a dict in insertion order, kept as an association
  list: a new user is appended with an empty list, then the team is appended to the
  user's list.
\<close>

definition dict_append ::
  "int \<Rightarrow> int \<times> string \<Rightarrow> (int \<times> (int \<times> string) list) list
     \<Rightarrow> (int \<times> (int \<times> string) list) list" where
  "dict_append uid v d =
     (let d' = (if uid \<notin> set (map fst d) then d @ [(uid, [])] else d)
      in map (\<lambda>(k, vs). if k = uid then (k, vs @ [v]) else (k, vs)) d')"

fun group_rows ::
  "(int \<times> int \<times> string) list \<Rightarrow> (int \<times> (int \<times> string) list) list
     \<Rightarrow> (int \<times> (int \<times> string) list) list" where
  "group_rows [] d = d"
| "group_rows ((uid, tid, tname) # rows) d = group_rows rows (dict_append uid (tid, tname) d)"

text \<open>The loop over the user's teams: it extends the message and raises \<open>has_tasks\<close>.\<close>

fun today_sections ::
  "database \<Rightarrow> timestamp \<Rightarrow> int \<Rightarrow> (int \<times> string) list \<Rightarrow> digest_line list \<times> bool
     \<Rightarrow> digest_line list \<times> bool" where
  "today_sections db now uid [] st = st"
| "today_sections db now uid ((tid, tname) # tms) (msg, has_tasks) =
     (let user_today = filter (\<lambda>t. assignee_id t = Some uid) (get_tasks_today db now tid)
      in if user_today \<noteq> []
         then today_sections db now uid tms
                (msg @ TeamHeader tname # map TodayLine user_today, True)
         else today_sections db now uid tms (msg, has_tasks))"

definition overdue_section ::
  "database \<Rightarrow> timestamp \<Rightarrow> int \<Rightarrow> digest_line list \<times> bool \<Rightarrow> digest_line list \<times> bool" where
  "overdue_section db now uid st =
     (case st of (msg, has_tasks) \<Rightarrow>
        (let user_overdue = filter (\<lambda>t. assignee_id t = Some uid) (get_overdue_tasks db now)
         in if user_overdue \<noteq> []
            then (msg @ OverdueHeader # map OverdueLine (take 5 user_overdue), True)
            else (msg, has_tasks)))"

text \<open>The body of the loop over users: the attempts it makes (none, or one).\<close>

definition summary_for_user ::
  "transport \<Rightarrow> database \<Rightarrow> timestamp \<Rightarrow> int \<Rightarrow> (int \<times> string) list \<Rightarrow> attempt list" where
  "summary_for_user send db now uid tms =
     (case overdue_section db now uid (today_sections db now uid tms ([], False)) of
        (msg, has_tasks) \<Rightarrow>
          if has_tasks then [(uid, Summary msg, send uid (Summary msg))] else [])"

fun summary_loop ::
  "transport \<Rightarrow> database \<Rightarrow> timestamp \<Rightarrow> (int \<times> (int \<times> string) list) list \<Rightarrow> attempt list" where
  "summary_loop send db now [] = []"
| "summary_loop send db now ((uid, tms) # rest) =
     summary_for_user send db now uid tms @ summary_loop send db now rest"

text \<open>
  \<open>fetch_ok\<close> is \<open>False\<close> when the membership query raises: the \<open>except\<close> branch logs and
  returns before any user is enumerated.
\<close>

definition user_teams :: "bool \<Rightarrow> database \<Rightarrow> (int \<times> (int \<times> string) list) list" where
  "user_teams fetch_ok db = (if fetch_ok then group_rows (all_members db) [] else [])"

definition send_daily_summary :: "bool \<Rightarrow> transport \<Rightarrow> timestamp \<Rightarrow> database \<Rightarrow> attempt list" where
  "send_daily_summary fetch_ok send now db = summary_loop send db now (user_teams fetch_ok db)"

text \<open>The overdue entries a message lists.\<close>

fun overdue_lines :: "message \<Rightarrow> task list" where
  "overdue_lines (Summary ls) = [t. OverdueLine t \<leftarrow> ls]"
| "overdue_lines (Reminder t k) = []"
| "overdue_lines (StatusChanged t s) = []"

text \<open>
  The notions of the digest claim, in the spec's words: a task is due today when its
  deadline falls on the current calendar day, overdue when its deadline is strictly
  before now, non-terminal when its status is \<open>todo\<close> or \<open>in_progress\<close>; a user
  qualifies with a non-terminal task assigned to them that is due today in a team they
  are a member of, or that is overdue. \<open>statuses\<close> is the status enumeration of the data
  model.
\<close>

definition due_today :: "timestamp \<Rightarrow> task \<Rightarrow> bool" where
  "due_today now t = (case deadline t of None \<Rightarrow> False | Some d \<Rightarrow> date_of d = date_of now)"

definition overdue :: "timestamp \<Rightarrow> task \<Rightarrow> bool" where
  "overdue now t = (case deadline t of None \<Rightarrow> False | Some d \<Rightarrow> d < now)"

definition non_terminal :: "string \<Rightarrow> bool" where
  "non_terminal s = (s \<in> {''todo'', ''in_progress''})"

definition statuses :: "string set" where
  "statuses = {''todo'', ''in_progress'', ''done'', ''cancelled''}"

definition member_of :: "database \<Rightarrow> int \<Rightarrow> int \<Rightarrow> bool" where
  "member_of db uid tid =
     (\<exists>m \<in> set (team_members db). \<exists>tm \<in> set (teams db).
        member_user_id m = uid \<and> member_team_id m = tid \<and> team_id tm = tid)"

definition qualifying :: "database \<Rightarrow> timestamp \<Rightarrow> int \<Rightarrow> bool" where
  "qualifying db now uid =
     (\<exists>t \<in> set (tasks db). assignee_id t = Some uid \<and> non_terminal (status t)
        \<and> ((due_today now t \<and> member_of db uid (task_team_id t)) \<or> overdue now t))"

text \<open>
  What the two queries of the summary select for a user: a task assigned to them that is
  due today in one of their teams with a status other than \<open>done\<close> and \<open>cancelled\<close>, or
  that is overdue with status \<open>todo\<close> or \<open>in_progress\<close>.
\<close>

definition digest_task :: "database \<Rightarrow> timestamp \<Rightarrow> int \<Rightarrow> bool" where
  "digest_task db now uid =
     (\<exists>t \<in> set (tasks db). assignee_id t = Some uid
        \<and> ((due_today now t \<and> member_of db uid (task_team_id t)
              \<and> status t \<notin> {''done'', ''cancelled''})
           \<or> (overdue now t \<and> status t \<in> {''todo'', ''in_progress''})))"

text \<open>The teams that the grouping dict holds for a user (none for a missing key).\<close>

definition teams_of :: "(int \<times> (int \<times> string) list) list \<Rightarrow> int \<Rightarrow> (int \<times> string) set" where
  "teams_of d k = (case map_of d k of None \<Rightarrow> {} | Some vs \<Rightarrow> set vs)"

section \<open>Status callbacks (src/handlers/callbacks.py, src/utils/notifications.py)\<close>

text \<open>
  The handlers are modelled from the parsed callback payload on: \<open>status_{id}_{status}\<close>
  gives the task id and the new status, \<open>cancel_{id}\<close> the task id. What the handler
  shows to the user who pressed the button is a \<open>reply\<close>; \<open>Raised\<close> is the \<open>TypeError\<close> of
  subscripting a task that is no longer there. The calls that show the reply
  (\<open>edit_message_text\<close>) are outside any \<open>try\<close> and are taken to return.
\<close>

datatype reply =
    TaskNotFoundReply
  | StatusErrorReply
  | TaskCard task
  | TaskCancelledReply int
  | Raised

text \<open>One send inside \<open>try ... except Exception\<close>: an attempt whatever the outcome.\<close>

definition notify_status_changed :: "transport \<Rightarrow> int \<Rightarrow> task \<Rightarrow> string \<Rightarrow> attempt list" where
  "notify_status_changed send author t new_status =
     [(author, StatusChanged t new_status, send author (StatusChanged t new_status))]"

definition handle_status_callback ::
  "bool \<Rightarrow> transport \<Rightarrow> timestamp \<Rightarrow> int \<Rightarrow> int \<Rightarrow> string \<Rightarrow> database
     \<Rightarrow> database \<times> reply \<times> attempt list" where
  "handle_status_callback exec_ok send now user tid new_status db =
     (case get_task db tid of
        None \<Rightarrow> (db, TaskNotFoundReply, [])
      | Some _ \<Rightarrow>
          (case update_task_status exec_ok now tid new_status db of
             (success, db') \<Rightarrow>
               if \<not> success then (db', StatusErrorReply, [])
               else (case get_task db' tid of
                       None \<Rightarrow> (db', Raised, [])
                     | Some t \<Rightarrow>
                         (db', TaskCard t,
                          if author_id t \<noteq> user
                          then notify_status_changed send (author_id t) t new_status
                          else []))))"

definition handle_cancel_task_callback ::
  "bool \<Rightarrow> transport \<Rightarrow> timestamp \<Rightarrow> int \<Rightarrow> int \<Rightarrow> database
     \<Rightarrow> database \<times> reply \<times> attempt list" where
  "handle_cancel_task_callback exec_ok send now user tid db =
     (snd (update_task_status exec_ok now tid ''cancelled'' db), TaskCancelledReply tid, [])"

section \<open>Task wizard, deadline step (src/utils/validators.py, src/handlers/tasks.py)\<close>

text \<open>
  \<open>str.strip()\<close>, with a character standing for its code point: the whitespace code
  points below 256 are 9 to 13, 28 to 32, 133 and 160.
\<close>

definition is_space :: "char \<Rightarrow> bool" where
  "is_space c = ((of_char c :: nat) \<in> {9, 10, 11, 12, 13, 28, 29, 30, 31, 32, 133, 160})"

definition strip :: "string \<Rightarrow> string" where
  "strip s = rev (dropWhile is_space (rev (dropWhile is_space s)))"

definition formats :: "string list" where
  "formats =
     [''%d.%m.%Y %H:%M'', ''%d.%m.%Y'', ''%Y-%m-%d %H:%M'', ''%Y-%m-%d'',
      ''%d/%m/%Y %H:%M'', ''%d/%m/%Y'']"

text \<open>
  \<open>datetime.strptime\<close> is the standard library's: it is the parameter \<open>strptime\<close>, which
  maps the text and a format to the parsed instant, or to \<open>None\<close> for \<open>ValueError\<close>. The
  loop tries the formats in order; the first one that parses decides.
\<close>

fun try_formats ::
  "(string \<Rightarrow> string \<Rightarrow> timestamp option) \<Rightarrow> timestamp \<Rightarrow> string \<Rightarrow> string list
     \<Rightarrow> timestamp option" where
  "try_formats strptime now txt [] = None"
| "try_formats strptime now txt (fmt # fmts) =
     (case strptime txt fmt of
        None \<Rightarrow> try_formats strptime now txt fmts
      | Some dt \<Rightarrow> if dt < now then None else Some dt)"

definition validate_deadline ::
  "(string \<Rightarrow> string \<Rightarrow> timestamp option) \<Rightarrow> timestamp \<Rightarrow> string \<Rightarrow> timestamp option" where
  "validate_deadline strptime now txt = try_formats strptime now (strip txt) formats"

datatype wizard_state =
    STATE_TITLE
  | STATE_DESCRIPTION
  | STATE_ASSIGNEE
  | STATE_DEADLINE
  | STATE_PRIORITY
  | STATE_CONFIRM
  | END

text \<open>The draft \<open>context.user_data["new_task"]\<close>: a dict from field names to values.\<close>

datatype field =
    IntField int
  | StrField string
  | TimeField timestamp
  | NoneField

type_synonym draft = "string \<rightharpoonup> field"

datatype prompt =
    DeadlineRejected
  | AskPriority

definition task_deadline_received ::
  "(string \<Rightarrow> string \<Rightarrow> timestamp option) \<Rightarrow> timestamp \<Rightarrow> string \<Rightarrow> draft
     \<Rightarrow> wizard_state \<times> draft \<times> prompt" where
  "task_deadline_received strptime now message_text new_task =
     (case validate_deadline strptime now (strip message_text) of
        None \<Rightarrow> (STATE_DEADLINE, new_task, DeadlineRejected)
      | Some dl \<Rightarrow> (STATE_PRIORITY, new_task(''deadline'' \<mapsto> TimeField dl), AskPriority))"

text \<open>The date the text parses to: the result of the first format that accepts it.\<close>

fun first_parse ::
  "(string \<Rightarrow> string \<Rightarrow> timestamp option) \<Rightarrow> string \<Rightarrow> string list \<Rightarrow> timestamp option" where
  "first_parse strptime txt [] = None"
| "first_parse strptime txt (fmt # fmts) =
     (case strptime txt fmt of
        None \<Rightarrow> first_parse strptime txt fmts
      | Some dt \<Rightarrow> Some dt)"

section \<open>Concrete stores for the examples\<close>

text \<open>
  The spec's scenarios: team Alpha on the free tier, task 7 of that team, written by
  user 1 and assigned to user 42, due 24 hours after instant 0; a team whose stored tier
  is none of the three known ones; and Alpha with twenty active tasks.
\<close>

definition default_env :: environment where
  "default_env = \<lparr>FREE_MEMBER_LIMIT = 3, FREE_TASK_LIMIT = 20, PRO_MEMBER_LIMIT = 15\<rparr>"

definition alpha :: team where
  "alpha = \<lparr>team_id = 1, name = ''Alpha'', owner_id = 1, invite_code = ''abc123'',
            subscription_type = Some ''free''\<rparr>"

definition legacy :: team where
  "legacy = \<lparr>team_id = 2, name = ''Legacy'', owner_id = 1, invite_code = ''xyz789'',
             subscription_type = Some ''trial''\<rparr>"

definition task7 :: task where
  "task7 = \<lparr>task_id = 7, task_team_id = 1, title = ''Report'', description = None,
            assignee_id = Some 42, author_id = 1, deadline = Some 86400000000,
            priority = ''medium'', status = ''todo'', updated_at = 0, completed_at = None\<rparr>"

definition store0 :: database where
  "store0 = \<lparr>teams = [alpha, legacy],
             team_members = [\<lparr>member_team_id = 1, member_user_id = 1, role = ''owner''\<rparr>,
                             \<lparr>member_team_id = 1, member_user_id = 42, role = ''member''\<rparr>,
                             \<lparr>member_team_id = 2, member_user_id = 1, role = ''owner''\<rparr>],
             tasks = [task7], reminders = []\<rparr>"

definition store_full :: database where
  "store_full = store0\<lparr>tasks := map (\<lambda>i. task7\<lparr>task_id := i\<rparr>) [1..20]\<rparr>"

text \<open>A transport that always returns, one that always raises, and a store whose inserts execute.\<close>

definition online :: transport where
  "online c m = True"

definition offline :: transport where
  "offline c m = False"

definition inserts_ok :: "int \<Rightarrow> string \<Rightarrow> bool" where
  "inserts_ok tid rtype = True"

definition store1 :: database where
  "store1 = store0\<lparr>reminders := [\<lparr>reminder_task_id = 7, reminder_type = ''24h''\<rparr>]\<rparr>"

text \<open>
  A parser for the two texts of the wizard examples (instants counted from
  1970-01-01 00:00), and a draft as it is when the deadline step is reached.
\<close>

definition strptime_example :: "string \<Rightarrow> string \<Rightarrow> timestamp option" where
  "strptime_example txt fmt =
     (if fmt = ''%d.%m.%Y %H:%M'' \<and> txt = ''20.02.2026 18:00'' then Some 1771610400000000
      else if fmt = ''%d.%m.%Y %H:%M'' \<and> txt = ''31.12.2020 10:00'' then Some 1609408800000000
      else None)"

definition draft0 :: draft where
  "draft0 = [''team_id'' \<mapsto> IntField 1, ''title'' \<mapsto> StrField ''Report'',
             ''description'' \<mapsto> NoneField, ''assignee_id'' \<mapsto> IntField 42]"

text \<open>Task 7 and six older tasks of user 42, all still open.\<close>

definition store_backlog :: database where
  "store_backlog =
     store0\<lparr>tasks := task7 # map (\<lambda>i. task7\<lparr>task_id := i, deadline := Some i\<rparr>) [1..6]\<rparr>"

text \<open>
  Task 7 completed at instant 100, and the store after user 42 sends the status payload
  \<open>archived\<close> for task 7.
\<close>

definition store_done :: database where
  "store_done = snd (update_task_status True 100 7 ''done'' store0)"

definition store_archived :: database where
  "store_archived = fst (handle_status_callback True online 50 42 7 ''archived'' store0)"

section \<open>Status updates\<close>

lemma find_map_task_id:
  assumes "\<And>t. task_id (f t) = task_id t"
  shows "find (\<lambda>t. task_id t = tid) (map (\<lambda>t. if task_id t = tid then f t else t) ts)
         = map_option f (find (\<lambda>t. task_id t = tid) ts)"
  using assms by (induction ts) auto

lemma task_id_set_status: "task_id (set_status now s t) = task_id t"
  by (simp add: set_status_def)

lemma get_task_update:
  "get_task (snd (update_task_status exec_ok now tid s db)) tid
     = (if exec_ok then map_option (set_status now s) (get_task db tid) else get_task db tid)"
  by (simp add: get_task_def update_task_status_def find_map_task_id task_id_set_status)

lemma get_task_store0: "get_task store0 7 = Some task7"
  by (simp add: get_task_def store0_def task7_def)

lemma get_task_store_done:
  "get_task store_done 7 = Some (task7\<lparr>status := ''done'', updated_at := 100, completed_at := Some 100\<rparr>)"
  by (simp add: store_done_def get_task_update get_task_store0 set_status_def)

text \<open>
  Claim C2, as the code has it: a status transition to \<open>done\<close> whose update executes sets
  \<open>completed_at\<close> to the instant of that transition, whether or not it was set before;
  the task's status becomes \<open>done\<close>, \<open>updated_at\<close> that instant, and nothing else changes.
  So re-entering \<open>done\<close> stamps \<open>completed_at\<close> again.
\<close>

theorem C2_done_stamps_completed_at:
  "get_task db tid = Some t \<Longrightarrow>
   get_task (snd (update_task_status True now tid ''done'' db)) tid
     = Some (t\<lparr>status := ''done'', updated_at := now, completed_at := Some now\<rparr>)"
  by (simp add: get_task_update set_status_def)

theorem C2_done_stamps_completed_at_witness:
  "get_task store0 7 = Some task7
   \<and> get_task (snd (update_task_status True 100 7 ''done'' store0)) 7
       = Some (task7\<lparr>status := ''done'', updated_at := 100, completed_at := Some 100\<rparr>)"
  using C2_done_stamps_completed_at [of store0 7 task7 100] by (simp add: get_task_store0)

text \<open>
  Claim C2 as stated fails: task 7 is completed at instant 100, reopened at 200 and
  completed again at 300; its \<open>completed_at\<close> is 100 after the first completion and 300
  after the second.
\<close>

theorem C2_reentering_done_counterexample:
  "completed_at task7 = None
   \<and> map completed_at (tasks (snd (update_task_status True 100 7 ''done'' store0))) = [Some 100]
   \<and> map completed_at (tasks (snd (update_task_status True 300 7 ''done''
         (snd (update_task_status True 200 7 ''todo''
           (snd (update_task_status True 100 7 ''done'' store0))))))) = [Some 300]"
  by (simp add: update_task_status_def store0_def task7_def set_status_def)

text \<open>
  Claim C4: a status transition of a task to any status other than \<open>done\<close> changes only
  \<open>status\<close> and \<open>updated_at\<close> of the task and leaves \<open>completed_at\<close> as it was (and when
  the update does not execute, the task is as before); the other tasks and tables are
  untouched.
\<close>

theorem C4_regression_keeps_completed_at:
  "s \<noteq> ''done'' \<Longrightarrow> get_task db tid = Some t \<Longrightarrow>
   (\<exists>t'. get_task (snd (update_task_status exec_ok now tid s db)) tid = Some t'
        \<and> t' = (if exec_ok then t\<lparr>status := s, updated_at := now\<rparr> else t)
        \<and> completed_at t' = completed_at t)
   \<and> snd (update_task_status exec_ok now tid s db)
       = (if exec_ok
          then db\<lparr>tasks := map (\<lambda>t. if task_id t = tid
                                    then t\<lparr>status := s, updated_at := now\<rparr> else t)
                               (tasks db)\<rparr>
          else db)"
proof (intro conjI)
  assume s: "s \<noteq> ''done''" and t: "get_task db tid = Some t"
  show "\<exists>t'. get_task (snd (update_task_status exec_ok now tid s db)) tid = Some t'
        \<and> t' = (if exec_ok then t\<lparr>status := s, updated_at := now\<rparr> else t)
        \<and> completed_at t' = completed_at t"
    using s t by (simp add: get_task_update set_status_def)
  show "snd (update_task_status exec_ok now tid s db)
       = (if exec_ok
          then db\<lparr>tasks := map (\<lambda>t. if task_id t = tid
                                    then t\<lparr>status := s, updated_at := now\<rparr> else t)
                               (tasks db)\<rparr>
          else db)"
    using s by (simp add: update_task_status_def set_status_def)
qed

theorem C4_regression_keeps_completed_at_witness:
  "''todo'' \<noteq> ''done''
   \<and> get_task store_done 7
       = Some (task7\<lparr>status := ''done'', updated_at := 100, completed_at := Some 100\<rparr>)
   \<and> (\<exists>t'. get_task (snd (update_task_status True 200 7 ''todo'' store_done)) 7 = Some t'
         \<and> status t' = ''todo'' \<and> updated_at t' = 200 \<and> completed_at t' = Some 100)"
proof -
  have s: "''todo'' \<noteq> ''done''" by simp
  have e: "\<exists>t'. get_task (snd (update_task_status True 200 7 ''todo'' store_done)) 7 = Some t'
         \<and> status t' = ''todo'' \<and> updated_at t' = 200 \<and> completed_at t' = Some 100"
    using conjunct1 [OF C4_regression_keeps_completed_at [OF s get_task_store_done, of True 200]]
    by (simp only: if_True) simp
  from s get_task_store_done e show ?thesis by (intro conjI)
qed

text \<open>
  Claim C9: the status update checks nothing about its status argument. For every
  string \<open>s\<close>, an update that executes returns \<open>True\<close> and the task then has status \<open>s\<close>;
  the status callback hands the status of its payload to the update as it is, and the
  card it shows carries that status.
\<close>

theorem C9_status_not_validated:
  "fst (update_task_status True now tid s db) = True
   \<and> (get_task db tid = Some t \<longrightarrow>
        (\<exists>t'. get_task (snd (update_task_status True now tid s db)) tid = Some t'
              \<and> status t' = s)
        \<and> (\<exists>t'. fst (snd (handle_status_callback True send now user tid s db)) = TaskCard t'
              \<and> status t' = s))"
  apply (simp add: get_task_update set_status_def handle_status_callback_def
         split: prod.splits option.splits)
  apply (auto simp: update_task_status_def get_task_def find_map_task_id task_id_set_status
         set_status_def)
  done

theorem C9_status_not_validated_witness:
  "''archived'' \<notin> {''todo'', ''in_progress'', ''done'', ''cancelled''}
   \<and> fst (update_task_status True 50 7 ''archived'' store0) = True
   \<and> get_task store0 7 = Some task7
   \<and> (\<exists>t'. get_task (snd (update_task_status True 50 7 ''archived'' store0)) 7 = Some t'
          \<and> status t' = ''archived'')"
  using C9_status_not_validated [of 50 7 "''archived''" store0 task7]
  by (simp add: get_task_store0)

section \<open>Limit checks\<close>

lemma get_team_store_full: "get_team store_full 1 = Some alpha"
  by (simp add: get_team_def store_full_def store0_def alpha_def)

text \<open>
  Claim C5: for an existing team the task-creation check returns a decision with the
  current count of active tasks, the limit of the team's tier, the tier, and
  \<open>allowed\<close> = (current < limit); it has no failing branch. For a team on the free tier
  whose count of active tasks equals the free limit, \<open>allowed\<close> is false.
\<close>

theorem C5_task_limit_decision:
  "get_team db tid = Some tm \<Longrightarrow>
   check_task_limit env db tid
     = Decision (get_active_tasks_count db tid)
         (max_tasks (limits_of_plan env (subscription_type tm)))
         (subscription_type tm)
         (get_active_tasks_count db tid < max_tasks (limits_of_plan env (subscription_type tm)))
   \<and> (subscription_type tm = Some ''free'' \<and> get_active_tasks_count db tid = FREE_TASK_LIMIT env
        \<longrightarrow> \<not> allowed (check_task_limit env db tid))"
  by (simp add: check_task_limit_def limits_of_plan_def SUBSCRIPTION_LIMITS_def free_limits_def
      Let_def)

theorem C5_task_limit_decision_witness:
  "get_team store_full 1 = Some alpha
   \<and> check_task_limit default_env store_full 1 = Decision 20 20 (Some ''free'') False
   \<and> \<not> allowed (check_task_limit default_env store_full 1)"
proof -
  have cnt: "get_active_tasks_count store_full 1 = 20"
    by (simp add: get_active_tasks_count_def store_full_def task7_def upto.simps)
  show ?thesis
    using C5_task_limit_decision [OF get_team_store_full, of default_env] get_team_store_full
    by (simp add: cnt alpha_def default_env_def limits_of_plan_def SUBSCRIPTION_LIMITS_def
        free_limits_def)
qed

text \<open>
  Claim C10: for a team whose stored tier is none of \<open>free\<close>, \<open>pro\<close>, \<open>enterprise\<close> (a NULL
  tier included), the task-creation check and the member-addition check both decide
  with the free tier's limits; the decision still reports the stored tier.
\<close>

theorem C10_unknown_tier_is_free:
  "get_team db tid = Some tm \<Longrightarrow>
   subscription_type tm \<notin> {Some ''free'', Some ''pro'', Some ''enterprise''} \<Longrightarrow>
   check_task_limit env db tid
     = Decision (get_active_tasks_count db tid) (max_tasks (free_limits env))
         (subscription_type tm) (get_active_tasks_count db tid < max_tasks (free_limits env))
   \<and> check_member_limit env db tid
     = Decision (get_team_member_count db tid) (max_members (free_limits env))
         (subscription_type tm) (get_team_member_count db tid < max_members (free_limits env))"
  by (auto simp add: check_task_limit_def check_member_limit_def limits_of_plan_def
      SUBSCRIPTION_LIMITS_def Let_def split: option.splits)

theorem C10_unknown_tier_is_free_witness:
  "get_team store0 2 = Some legacy
   \<and> subscription_type legacy \<notin> {Some ''free'', Some ''pro'', Some ''enterprise''}
   \<and> check_task_limit default_env store0 2 = Decision 0 20 (Some ''trial'') True
   \<and> check_member_limit default_env store0 2 = Decision 1 3 (Some ''trial'') True"
proof -
  have tm: "get_team store0 2 = Some legacy"
    by (simp add: get_team_def store0_def alpha_def legacy_def)
  have plan: "subscription_type legacy \<notin> {Some ''free'', Some ''pro'', Some ''enterprise''}"
    by (simp add: legacy_def)
  show ?thesis
    using C10_unknown_tier_is_free [OF tm plan, of default_env] tm plan
    by (simp add: store0_def legacy_def get_active_tasks_count_def
        get_team_member_count_def task7_def default_env_def free_limits_def)
qed

section \<open>Deadline sweep\<close>

lemma is_reminder_sent_iff:
  "is_reminder_sent db tid k \<longleftrightarrow>
     (\<exists>r \<in> set (reminders db). reminder_task_id r = tid \<and> reminder_type r = k)"
  by (auto simp: is_reminder_sent_def find_None_iff)

lemma is_reminder_sent_mark:
  "is_reminder_sent (mark_reminder_sent b i r db) tid k \<longleftrightarrow>
     is_reminder_sent db tid k \<or> (b \<and> i = tid \<and> r = k)"
  by (auto simp: is_reminder_sent_iff mark_reminder_sent_def)

lemma tasks_mark [simp]: "tasks (mark_reminder_sent b i r db) = tasks db"
  and teams_mark [simp]: "teams (mark_reminder_sent b i r db) = teams db"
  by (simp_all add: mark_reminder_sent_def)

lemma remind_task_sent:
  "is_reminder_sent (fst (remind_task send ok rtype t st)) tid k \<longleftrightarrow>
     is_reminder_sent (fst st) tid k \<or> (k = rtype \<and> task_id t = tid \<and> delivered send ok rtype t)"
  by (cases st) (auto simp: remind_task_def delivered_def is_reminder_sent_mark split: option.splits)

lemma remind_task_frame:
  "tasks (fst (remind_task send ok rtype t st)) = tasks (fst st)"
  "teams (fst (remind_task send ok rtype t st)) = teams (fst st)"
  by (cases st; simp add: remind_task_def split: option.splits)+

lemma remind_tasks_sent:
  "is_reminder_sent (fst (remind_tasks send ok rtype ts st)) tid k \<longleftrightarrow>
     is_reminder_sent (fst st) tid k
     \<or> (k = rtype \<and> (\<exists>t \<in> set ts. task_id t = tid \<and> delivered send ok rtype t))"
  by (induction ts arbitrary: st) (auto simp: remind_task_sent)

lemma remind_tasks_frame:
  "tasks (fst (remind_tasks send ok rtype ts st)) = tasks (fst st)"
  "teams (fst (remind_tasks send ok rtype ts st)) = teams (fst st)"
  by (induction ts arbitrary: st; simp add: remind_task_frame)+

lemma get_upcoming_tasks_cong:
  "tasks db' = tasks db \<Longrightarrow> teams db' = teams db \<Longrightarrow>
   get_upcoming_tasks db' start stop = get_upcoming_tasks db start stop"
  by (simp add: get_upcoming_tasks_def)

lemma sweep_windows_frame:
  "tasks (fst (sweep_windows send ok ws st)) = tasks (fst st)
   \<and> teams (fst (sweep_windows send ok ws st)) = teams (fst st)"
proof (induction ws arbitrary: st)
  case Nil
  show ?case by simp
next
  case (Cons w ws)
  obtain rtype start stop where w: "w = (rtype, start, stop)" by (cases w) auto
  show ?case
    using Cons.IH [of "remind_tasks send ok rtype (get_upcoming_tasks (fst st) start stop) st"]
    by (simp add: w remind_tasks_frame)
qed

lemma sweep_windows_sent:
  "is_reminder_sent (fst (sweep_windows send ok ws st)) tid k \<longleftrightarrow>
     is_reminder_sent (fst st) tid k
     \<or> (\<exists>(rtype, start, stop) \<in> set ws. k = rtype
          \<and> (\<exists>t \<in> set (get_upcoming_tasks (fst st) start stop).
                task_id t = tid \<and> delivered send ok rtype t))"
proof (induction ws arbitrary: st)
  case Nil
  show ?case by simp
next
  case (Cons w ws)
  obtain rtype start stop where w: "w = (rtype, start, stop)" by (cases w) auto
  let ?st' = "remind_tasks send ok rtype (get_upcoming_tasks (fst st) start stop) st"
  have same: "\<And>a b. get_upcoming_tasks (fst ?st') a b = get_upcoming_tasks (fst st) a b"
    by (rule get_upcoming_tasks_cong) (simp_all add: remind_tasks_frame)
  show ?case
    unfolding w sweep_windows.simps Cons.IH [of ?st'] same remind_tasks_sent
    by auto
qed

lemma remind_task_log:
  "e \<in> set (snd (remind_task send ok rtype t st)) \<Longrightarrow>
   e \<in> set (snd st)
   \<or> (\<exists>a. e = (a, Reminder t rtype, send a (Reminder t rtype))
          \<and> assignee_id t = Some a \<and> a \<noteq> 0
          \<and> \<not> is_reminder_sent (fst st) (task_id t) rtype)"
  by (cases st) (auto simp: remind_task_def split: option.splits if_splits)

lemma remind_tasks_log:
  "e \<in> set (snd (remind_tasks send ok rtype ts st)) \<Longrightarrow>
   e \<in> set (snd st)
   \<or> (\<exists>t a. e = (a, Reminder t rtype, send a (Reminder t rtype))
          \<and> t \<in> set ts \<and> assignee_id t = Some a \<and> a \<noteq> 0
          \<and> \<not> is_reminder_sent (fst st) (task_id t) rtype)"
proof (induction ts arbitrary: st)
  case Nil
  then show ?case by simp
next
  case (Cons x xs)
  let ?st' = "remind_task send ok rtype x st"
  from Cons.prems have "e \<in> set (snd (remind_tasks send ok rtype xs ?st'))" by simp
  from Cons.IH [OF this] show ?case
  proof
    assume "e \<in> set (snd ?st')"
    from remind_task_log [OF this] show ?thesis by auto
  next
    assume "\<exists>t a. e = (a, Reminder t rtype, send a (Reminder t rtype))
          \<and> t \<in> set xs \<and> assignee_id t = Some a \<and> a \<noteq> 0
          \<and> \<not> is_reminder_sent (fst ?st') (task_id t) rtype"
    then show ?thesis by (auto simp: remind_task_sent)
  qed
qed

lemma sweep_windows_log:
  "e \<in> set (snd (sweep_windows send ok ws st)) \<Longrightarrow>
   e \<in> set (snd st)
   \<or> (\<exists>(rtype, start, stop) \<in> set ws. \<exists>t a.
          e = (a, Reminder t rtype, send a (Reminder t rtype))
          \<and> t \<in> set (get_upcoming_tasks (fst st) start stop)
          \<and> assignee_id t = Some a \<and> a \<noteq> 0
          \<and> \<not> is_reminder_sent (fst st) (task_id t) rtype)"
proof (induction ws arbitrary: st)
  case Nil
  then show ?case by simp
next
  case (Cons w ws)
  obtain rtype start stop where w: "w = (rtype, start, stop)" by (cases w) auto
  let ?st' = "remind_tasks send ok rtype (get_upcoming_tasks (fst st) start stop) st"
  have same: "\<And>a b. get_upcoming_tasks (fst ?st') a b = get_upcoming_tasks (fst st) a b"
    by (rule get_upcoming_tasks_cong) (simp_all add: remind_tasks_frame)
  from Cons.prems have "e \<in> set (snd (sweep_windows send ok ws ?st'))" by (simp add: w)
  from Cons.IH [OF this] show ?case
  proof
    assume "e \<in> set (snd ?st')"
    from remind_tasks_log [OF this] show ?thesis by (auto simp: w)
  next
    assume "\<exists>(rtype, start, stop) \<in> set ws. \<exists>t a.
          e = (a, Reminder t rtype, send a (Reminder t rtype))
          \<and> t \<in> set (get_upcoming_tasks (fst ?st') start stop)
          \<and> assignee_id t = Some a \<and> a \<noteq> 0
          \<and> \<not> is_reminder_sent (fst ?st') (task_id t) rtype"
    then show ?thesis unfolding same by (auto simp: remind_tasks_sent)
  qed
qed


lemma remind_task_log_mono: "set (snd st) \<subseteq> set (snd (remind_task send ok rtype t st))"
  by (cases st) (auto simp: remind_task_def split: option.splits)

lemma remind_tasks_log_mono: "set (snd st) \<subseteq> set (snd (remind_tasks send ok rtype ts st))"
proof (induction ts arbitrary: st)
  case Nil
  show ?case by simp
next
  case (Cons x xs)
  show ?case
    using remind_task_log_mono [of st send ok rtype x]
      Cons.IH [of "remind_task send ok rtype x st"]
    by auto
qed

lemma sweep_windows_log_mono: "set (snd st) \<subseteq> set (snd (sweep_windows send ok ws st))"
proof (induction ws arbitrary: st)
  case Nil
  show ?case by simp
next
  case (Cons w ws)
  obtain rtype start stop where w: "w = (rtype, start, stop)" by (cases w) auto
  show ?case
    using remind_tasks_log_mono [of st send ok rtype "get_upcoming_tasks (fst st) start stop"]
      Cons.IH [of "remind_tasks send ok rtype (get_upcoming_tasks (fst st) start stop) st"]
    by (auto simp: w)
qed

lemma remind_task_attempt:
  "assignee_id t = Some a \<Longrightarrow> a \<noteq> 0 \<Longrightarrow> \<not> is_reminder_sent (fst st) (task_id t) rtype \<Longrightarrow>
   (a, Reminder t rtype, send a (Reminder t rtype)) \<in> set (snd (remind_task send ok rtype t st))"
  by (cases st) (auto simp: remind_task_def)

lemma remind_tasks_attempt:
  "t \<in> set ts \<Longrightarrow> assignee_id t = Some a \<Longrightarrow> a \<noteq> 0 \<Longrightarrow>
   \<not> is_reminder_sent (fst st) (task_id t) rtype \<Longrightarrow>
   (\<forall>t' \<in> set ts. task_id t' = task_id t \<longrightarrow> t' = t) \<Longrightarrow>
   (a, Reminder t rtype, send a (Reminder t rtype)) \<in> set (snd (remind_tasks send ok rtype ts st))"
proof (induction ts arbitrary: st)
  case Nil
  then show ?case by simp
next
  case (Cons x xs)
  show ?case
  proof (cases "x = t")
    case True
    have "(a, Reminder t rtype, send a (Reminder t rtype))
            \<in> set (snd (remind_task send ok rtype t st))"
      using Cons.prems by (intro remind_task_attempt) simp_all
    then show ?thesis
      using remind_tasks_log_mono [of "remind_task send ok rtype t st" send ok rtype xs] True
      by auto
  next
    case False
    with Cons.prems have ne: "task_id x \<noteq> task_id t" and mem: "t \<in> set xs" by auto
    have "\<not> is_reminder_sent (fst (remind_task send ok rtype x st)) (task_id t) rtype"
      using Cons.prems(4) ne by (simp add: remind_task_sent)
    from Cons.IH [OF mem Cons.prems(2,3) this] Cons.prems(5) show ?thesis by simp
  qed
qed

lemma get_upcoming_tasks_subset: "set (get_upcoming_tasks db start stop) \<subseteq> set (tasks db)"
  by (auto simp: get_upcoming_tasks_def)

lemma primary_key:
  "distinct (map task_id ts) \<Longrightarrow> t \<in> set ts \<Longrightarrow> t' \<in> set ts \<Longrightarrow> task_id t' = task_id t \<Longrightarrow> t' = t"
  by (auto simp: distinct_map dest: inj_onD)

lemma sweep_windows_attempt:
  "distinct (map fst ws) \<Longrightarrow> (rtype, start, stop) \<in> set ws \<Longrightarrow>
   distinct (map task_id (tasks (fst st))) \<Longrightarrow>
   t \<in> set (get_upcoming_tasks (fst st) start stop) \<Longrightarrow>
   assignee_id t = Some a \<Longrightarrow> a \<noteq> 0 \<Longrightarrow>
   \<not> is_reminder_sent (fst st) (task_id t) rtype \<Longrightarrow>
   (a, Reminder t rtype, send a (Reminder t rtype)) \<in> set (snd (sweep_windows send ok ws st))"
proof (induction ws arbitrary: st)
  case Nil
  then show ?case by simp
next
  case (Cons w ws)
  obtain r s e where w: "w = (r, s, e)" by (cases w) auto
  let ?st' = "remind_tasks send ok r (get_upcoming_tasks (fst st) s e) st"
  have same: "\<And>a b. get_upcoming_tasks (fst ?st') a b = get_upcoming_tasks (fst st) a b"
    by (rule get_upcoming_tasks_cong) (simp_all add: remind_tasks_frame)
  show ?case
  proof (cases "w = (rtype, start, stop)")
    case True
    have uniq: "\<forall>t' \<in> set (get_upcoming_tasks (fst st) start stop). task_id t' = task_id t \<longrightarrow> t' = t"
      using primary_key [OF Cons.prems(3)] Cons.prems(4) get_upcoming_tasks_subset by blast
    have "(a, Reminder t rtype, send a (Reminder t rtype))
            \<in> set (snd (remind_tasks send ok rtype (get_upcoming_tasks (fst st) start stop) st))"
      by (rule remind_tasks_attempt [OF Cons.prems(4,5,6,7) uniq])
    then show ?thesis
      using sweep_windows_log_mono
        [of "remind_tasks send ok rtype (get_upcoming_tasks (fst st) start stop) st" send ok ws]
        True
      by auto
  next
    case False
    with Cons.prems(1,2) have mem: "(rtype, start, stop) \<in> set ws" and ne: "r \<noteq> rtype"
      and d: "distinct (map fst ws)"
      by (auto simp: w image_iff)
    have n: "\<not> is_reminder_sent (fst ?st') (task_id t) rtype"
      using Cons.prems(7) ne by (simp add: remind_tasks_sent)
    have pk: "distinct (map task_id (tasks (fst ?st')))"
      using Cons.prems(3) by (simp add: remind_tasks_frame)
    have c: "t \<in> set (get_upcoming_tasks (fst ?st') start stop)"
      using Cons.prems(4) by (simp add: same)
    from Cons.IH [OF d mem pk c Cons.prems(5,6) n] show ?thesis by (simp add: w)
  qed
qed

lemma distinct_window_kinds: "distinct (map fst (windows now))"
  by (simp add: windows_def)


lemmas sweep_eval = check_upcoming_deadlines_def windows_def timedelta_def get_upcoming_tasks_def
  remind_task_def is_reminder_sent_def mark_reminder_sent_def store0_def store1_def task7_def alpha_def
  legacy_def online_def offline_def inserts_ok_def

lemma run_offline: "check_upcoming_deadlines offline inserts_ok 0 store0
    = (store0, [(42, Reminder task7 ''24h'', False)])"
  by (simp add: sweep_eval)

lemma run_online: "check_upcoming_deadlines online inserts_ok 0 store0
    = (store1, [(42, Reminder task7 ''24h'', True)])"
  by (simp add: sweep_eval)

lemma run_again: "check_upcoming_deadlines online inserts_ok 0 store1 = (store1, [])"
  by (simp add: sweep_eval)

text \<open>
  Claim C1, as the code has it. Let the task ids be unique (the primary key). For every
  candidate of a window that has an assignee and no dispatch record for that window
  kind, the sweep calls the transport for it, and after the sweep the dispatch
  record for (task, window kind) exists exactly when that send returned and the INSERT
  executed. When the send raises, no record is written.
\<close>

theorem C1_record_iff_send_returned:
  assumes pk: "distinct (map task_id (tasks db))"
    and w: "(rtype, start, stop) \<in> set (windows now)"
    and t: "t \<in> set (get_upcoming_tasks db start stop)"
    and a: "assignee_id t = Some a" "a \<noteq> 0"
    and n: "\<not> is_reminder_sent db (task_id t) rtype"
  shows "(a, Reminder t rtype, send a (Reminder t rtype))
            \<in> set (snd (check_upcoming_deadlines send ins_ok now db))
       \<and> (is_reminder_sent (fst (check_upcoming_deadlines send ins_ok now db)) (task_id t) rtype
            \<longleftrightarrow> send a (Reminder t rtype) \<and> ins_ok (task_id t) rtype)"
proof
  show "(a, Reminder t rtype, send a (Reminder t rtype))
            \<in> set (snd (check_upcoming_deadlines send ins_ok now db))"
    unfolding check_upcoming_deadlines_def
    using distinct_window_kinds w pk t a n by (intro sweep_windows_attempt) simp_all
  have d: "delivered send ins_ok rtype t \<longleftrightarrow> send a (Reminder t rtype) \<and> ins_ok (task_id t) rtype"
    using a by (simp add: delivered_def)
  have "is_reminder_sent (fst (check_upcoming_deadlines send ins_ok now db)) (task_id t) rtype
          \<longleftrightarrow> delivered send ins_ok rtype t"
  proof
    assume "is_reminder_sent (fst (check_upcoming_deadlines send ins_ok now db)) (task_id t) rtype"
    then obtain s e t' where "(rtype, s, e) \<in> set (windows now)"
      "t' \<in> set (get_upcoming_tasks db s e)" "task_id t' = task_id t"
      "delivered send ins_ok rtype t'"
      using n by (auto simp: check_upcoming_deadlines_def sweep_windows_sent)
    moreover have "t' = t"
      using primary_key [OF pk] t calculation(2,3) get_upcoming_tasks_subset by blast
    ultimately show "delivered send ins_ok rtype t" by simp
  next
    assume "delivered send ins_ok rtype t"
    with w t show "is_reminder_sent (fst (check_upcoming_deadlines send ins_ok now db)) (task_id t) rtype"
      unfolding check_upcoming_deadlines_def sweep_windows_sent by auto
  qed
  with d show "is_reminder_sent (fst (check_upcoming_deadlines send ins_ok now db)) (task_id t) rtype
            \<longleftrightarrow> send a (Reminder t rtype) \<and> ins_ok (task_id t) rtype"
    by simp
qed

theorem C1_record_iff_send_returned_witness:
  "distinct (map task_id (tasks store0))
   \<and> (''24h'', 0 + timedelta 23 30, 0 + timedelta 24 30) \<in> set (windows 0)
   \<and> task7 \<in> set (get_upcoming_tasks store0 (0 + timedelta 23 30) (0 + timedelta 24 30))
   \<and> assignee_id task7 = Some 42
   \<and> \<not> is_reminder_sent store0 (task_id task7) ''24h''
   \<and> (42, Reminder task7 ''24h'', True) \<in> set (snd (check_upcoming_deadlines online inserts_ok 0 store0))
   \<and> is_reminder_sent (fst (check_upcoming_deadlines online inserts_ok 0 store0)) (task_id task7) ''24h''
   \<and> \<not> is_reminder_sent (fst (check_upcoming_deadlines offline inserts_ok 0 store0)) (task_id task7) ''24h''"
proof -
  have pk: "distinct (map task_id (tasks store0))" by (simp add: store0_def)
  have w: "(''24h'', 0 + timedelta 23 30, 0 + timedelta 24 30) \<in> set (windows 0)"
    by (simp add: windows_def)
  have t: "task7 \<in> set (get_upcoming_tasks store0 (0 + timedelta 23 30) (0 + timedelta 24 30))"
    by (simp add: sweep_eval)
  have a: "assignee_id task7 = Some 42" "(42::int) \<noteq> 0" by (simp_all add: task7_def)
  have n: "\<not> is_reminder_sent store0 (task_id task7) ''24h''"
    by (simp add: is_reminder_sent_def store0_def)
  show ?thesis
    using C1_record_iff_send_returned [OF pk w t a n, of online inserts_ok] C1_record_iff_send_returned [OF pk w t a n, of offline inserts_ok]
      pk w t a n
    by (simp add: online_def offline_def inserts_ok_def)
qed


text \<open>
  Claim C1 as stated fails: task 7 is a candidate of the 24h window with assignee 42 and
  no record; the send raises; the attempt was made and there is no record afterwards.
\<close>

theorem C1_failed_delivery_counterexample:
  "task7 \<in> set (get_upcoming_tasks store0 (0 + timedelta 23 30) (0 + timedelta 24 30))
   \<and> assignee_id task7 = Some 42
   \<and> \<not> is_reminder_sent store0 (task_id task7) ''24h''
   \<and> snd (check_upcoming_deadlines offline inserts_ok 0 store0)
        = [(42, Reminder task7 ''24h'', False)]
   \<and> \<not> is_reminder_sent (fst (check_upcoming_deadlines offline inserts_ok 0 store0))
          (task_id task7) ''24h''"
  by (simp add: sweep_eval)


lemma remind_tasks_unrecorded_attempt:
  "t \<in> set ts \<Longrightarrow> assignee_id t = Some a \<Longrightarrow> a \<noteq> 0 \<Longrightarrow>
   \<not> is_reminder_sent (fst (remind_tasks send ok rtype ts st)) (task_id t) rtype \<Longrightarrow>
   (a, Reminder t rtype, send a (Reminder t rtype)) \<in> set (snd (remind_tasks send ok rtype ts st))"
proof (induction ts arbitrary: st)
  case Nil
  then show ?case by simp
next
  case (Cons x xs)
  let ?st' = "remind_task send ok rtype x st"
  show ?case
  proof (cases "x = t")
    case True
    from Cons.prems(4) have "\<not> is_reminder_sent (fst st) (task_id t) rtype"
      by (simp add: remind_tasks_sent remind_task_sent)
    with Cons.prems(2,3)
    have "(a, Reminder t rtype, send a (Reminder t rtype)) \<in> set (snd (remind_task send ok rtype t st))"
      by (intro remind_task_attempt)
    then show ?thesis
      using remind_tasks_log_mono [of "remind_task send ok rtype t st" send ok rtype xs] True
      by auto
  next
    case False
    with Cons.prems(1) have mem: "t \<in> set xs" by simp
    from Cons.prems(4)
    have n: "\<not> is_reminder_sent (fst (remind_tasks send ok rtype xs ?st')) (task_id t) rtype"
      by simp
    from Cons.IH [OF mem Cons.prems(2,3) n] show ?thesis by simp
  qed
qed

lemma sweep_windows_unrecorded_attempt:
  "(rtype, start, stop) \<in> set ws \<Longrightarrow>
   t \<in> set (get_upcoming_tasks (fst st) start stop) \<Longrightarrow>
   assignee_id t = Some a \<Longrightarrow> a \<noteq> 0 \<Longrightarrow>
   \<not> is_reminder_sent (fst (sweep_windows send ok ws st)) (task_id t) rtype \<Longrightarrow>
   (a, Reminder t rtype, send a (Reminder t rtype)) \<in> set (snd (sweep_windows send ok ws st))"
proof (induction ws arbitrary: st)
  case Nil
  then show ?case by simp
next
  case (Cons w ws)
  obtain r s e where w: "w = (r, s, e)" by (cases w) auto
  let ?st' = "remind_tasks send ok r (get_upcoming_tasks (fst st) s e) st"
  have same: "\<And>a b. get_upcoming_tasks (fst ?st') a b = get_upcoming_tasks (fst st) a b"
    by (rule get_upcoming_tasks_cong) (simp_all add: remind_tasks_frame)
  from Cons.prems(5)
  have fin: "\<not> is_reminder_sent (fst (sweep_windows send ok ws ?st')) (task_id t) rtype"
    by (simp add: w)
  show ?case
  proof (cases "w = (rtype, start, stop)")
    case True
    with w have eq: "r = rtype" "s = start" "e = stop" by simp_all
    from fin have "\<not> is_reminder_sent (fst ?st') (task_id t) rtype"
      by (simp add: sweep_windows_sent)
    then have "(a, Reminder t rtype, send a (Reminder t rtype)) \<in> set (snd ?st')"
      using Cons.prems(2,3,4) unfolding eq by (intro remind_tasks_unrecorded_attempt)
    then show ?thesis
      using sweep_windows_log_mono [of ?st' send ok ws] by (auto simp: w)
  next
    case False
    with Cons.prems(1) have mem: "(rtype, start, stop) \<in> set ws" by simp
    have c: "t \<in> set (get_upcoming_tasks (fst ?st') start stop)"
      using Cons.prems(2) by (simp add: same)
    from Cons.IH [OF mem c Cons.prems(3,4) fin] show ?thesis by (simp add: w)
  qed
qed

text \<open>
  Claim C3, as the code has it, for two sweeps one after the other on the same store.
  Every pair whose send returned in the first run, and whose INSERT executed, has a
  dispatch record after it. The second run, whenever it happens, attempts no pair that
  has a record after the first run. When the second run is at the same instant: if every
  send that the first run attempted returned and its INSERT executed, the second run
  attempts nothing; and, the task ids being unique, every pair whose send raised in the
  first run is attempted again in the second.
\<close>

theorem C3_second_sweep:
  assumes run1: "check_upcoming_deadlines send1 ok1 now db = (db1, att1)"
    and run2: "check_upcoming_deadlines send2 ok2 now2 db1 = (db2, att2)"
  shows "(\<forall>(a, m, r) \<in> set att1. \<forall>t k. m = Reminder t k \<and> r \<and> ok1 (task_id t) k
            \<longrightarrow> is_reminder_sent db1 (task_id t) k)
       \<and> (\<forall>(a, m, r) \<in> set att2. \<forall>t k. m = Reminder t k
            \<longrightarrow> \<not> is_reminder_sent db1 (task_id t) k)
       \<and> (now2 = now
            \<and> (\<forall>(a, m, r) \<in> set att1. r \<and> (\<forall>t k. m = Reminder t k \<longrightarrow> ok1 (task_id t) k))
            \<longrightarrow> att2 = [])
       \<and> (now2 = now \<and> distinct (map task_id (tasks db))
            \<longrightarrow> (\<forall>(a, m, r) \<in> set att1. \<not> r \<longrightarrow> (a, m, send2 a m) \<in> set att2))"
proof (intro conjI)
  have db1: "db1 = fst (sweep_windows send1 ok1 (windows now) (db, []))"
    and att1: "att1 = snd (sweep_windows send1 ok1 (windows now) (db, []))"
    using run1 by (simp_all add: check_upcoming_deadlines_def)
  have att2: "att2 = snd (sweep_windows send2 ok2 (windows now2) (db1, []))"
    using run2 by (simp add: check_upcoming_deadlines_def)
  have sent1: "\<And>tid k. is_reminder_sent db1 tid k \<longleftrightarrow>
      is_reminder_sent db tid k
      \<or> (\<exists>(rtype, start, stop) \<in> set (windows now). k = rtype
           \<and> (\<exists>t \<in> set (get_upcoming_tasks db start stop).
                 task_id t = tid \<and> delivered send1 ok1 rtype t))"
    unfolding db1 sweep_windows_sent by simp
  have frame: "\<And>a b. get_upcoming_tasks db1 a b = get_upcoming_tasks db a b"
    unfolding db1 by (rule get_upcoming_tasks_cong) (simp_all add: sweep_windows_frame)
  show "\<forall>(a, m, r) \<in> set att1. \<forall>t k. m = Reminder t k \<and> r \<and> ok1 (task_id t) k
            \<longrightarrow> is_reminder_sent db1 (task_id t) k"
  proof (clarify)
    fix a r t k
    assume e: "(a, Reminder t k, r) \<in> set att1" and r: r and ok: "ok1 (task_id t) k"
    from sweep_windows_log [OF e [unfolded att1]]
    obtain start stop where "(k, start, stop) \<in> set (windows now)"
      "t \<in> set (get_upcoming_tasks db start stop)" "assignee_id t = Some a" "a \<noteq> 0"
      "r = send1 a (Reminder t k)"
      by auto
    with r ok have "(k, start, stop) \<in> set (windows now)
        \<and> t \<in> set (get_upcoming_tasks db start stop) \<and> delivered send1 ok1 k t"
      by (simp add: delivered_def)
    then show "is_reminder_sent db1 (task_id t) k" unfolding sent1 by blast
  qed
  show "\<forall>(a, m, r) \<in> set att2. \<forall>t k. m = Reminder t k
            \<longrightarrow> \<not> is_reminder_sent db1 (task_id t) k"
  proof (clarify)
    fix a r t k
    assume e: "(a, Reminder t k, r) \<in> set att2" and s: "is_reminder_sent db1 (task_id t) k"
    from sweep_windows_log [OF e [unfolded att2]] s show False by auto
  qed
  show "now2 = now
        \<and> (\<forall>(a, m, r) \<in> set att1. r \<and> (\<forall>t k. m = Reminder t k \<longrightarrow> ok1 (task_id t) k))
        \<longrightarrow> att2 = []"
  proof (intro impI, elim conjE)
    assume now: "now2 = now"
      and all: "\<forall>(a, m, r) \<in> set att1. r \<and> (\<forall>t k. m = Reminder t k \<longrightarrow> ok1 (task_id t) k)"
    show "att2 = []"
    proof (cases att2)
      case Nil
      then show ?thesis .
    next
      case (Cons e es)
      then have e: "e \<in> set att2" by simp
      from sweep_windows_log [OF e [unfolded att2]]
      obtain k start stop t a where w: "(k, start, stop) \<in> set (windows now)"
        and t: "t \<in> set (get_upcoming_tasks db start stop)"
        and a: "assignee_id t = Some a" "a \<noteq> 0"
        and n: "\<not> is_reminder_sent db1 (task_id t) k"
        by (auto simp: now frame)
      have "(a, Reminder t k, send1 a (Reminder t k)) \<in> set att1"
        unfolding att1 using w t a n [unfolded db1]
        by (intro sweep_windows_unrecorded_attempt) simp_all
      with all have "send1 a (Reminder t k)" "ok1 (task_id t) k" by auto
      with a have "delivered send1 ok1 k t" by (simp add: delivered_def)
      with w t have "is_reminder_sent db1 (task_id t) k" unfolding sent1 by blast
      with n show ?thesis by simp
    qed
  qed
  show "now2 = now \<and> distinct (map task_id (tasks db))
        \<longrightarrow> (\<forall>(a, m, r) \<in> set att1. \<not> r \<longrightarrow> (a, m, send2 a m) \<in> set att2)"
  proof (intro impI, elim conjE, clarify)
    fix a m r
    assume now: "now2 = now" and pk: "distinct (map task_id (tasks db))"
      and e: "(a, m, r) \<in> set att1" and r: "\<not> r"
    from sweep_windows_log [OF e [unfolded att1]]
    obtain k start stop t where m: "m = Reminder t k"
      and w: "(k, start, stop) \<in> set (windows now)"
      and t: "t \<in> set (get_upcoming_tasks db start stop)"
      and a: "assignee_id t = Some a" "a \<noteq> 0"
      and n: "\<not> is_reminder_sent db (task_id t) k"
      and s: "r = send1 a (Reminder t k)"
      by auto
    from r s a have nd: "\<not> delivered send1 ok1 k t" by (simp add: delivered_def)
    have n1: "\<not> is_reminder_sent db1 (task_id t) k"
    proof
      assume "is_reminder_sent db1 (task_id t) k"
      with n obtain s' e' t' where "t' \<in> set (get_upcoming_tasks db s' e')"
        "task_id t' = task_id t" "delivered send1 ok1 k t'"
        unfolding sent1 by auto
      moreover have "t' = t"
        using primary_key [OF pk] t calculation(1,2) get_upcoming_tasks_subset by blast
      ultimately show False using nd by simp
    qed
    have pk1: "distinct (map task_id (tasks (fst (db1, []::attempt list))))"
      using pk unfolding db1 by (simp add: sweep_windows_frame)
    have "(a, Reminder t k, send2 a (Reminder t k))
            \<in> set (snd (sweep_windows send2 ok2 (windows now) (db1, [])))"
      using distinct_window_kinds w pk1 t a n1
      by (intro sweep_windows_attempt) (simp_all add: frame)
    then show "(a, m, send2 a m) \<in> set att2" by (simp add: att2 now m)
  qed
qed

theorem C3_second_sweep_witness:
  "check_upcoming_deadlines online inserts_ok 0 store0 = (store1, [(42, Reminder task7 ''24h'', True)])
   \<and> check_upcoming_deadlines online inserts_ok 0 store1 = (store1, [])
   \<and> is_reminder_sent store1 (task_id task7) ''24h''
   \<and> check_upcoming_deadlines offline inserts_ok 0 store0
       = (store0, [(42, Reminder task7 ''24h'', False)])
   \<and> distinct (map task_id (tasks store0))
   \<and> (42, Reminder task7 ''24h'', True)
       \<in> set (snd (check_upcoming_deadlines online inserts_ok 0 store0))"
proof -
  have pk: "distinct (map task_id (tasks store0))" by (simp add: store0_def)
  from C3_second_sweep [OF run_online run_again] have "is_reminder_sent store1 (task_id task7) ''24h''"
    by (simp add: inserts_ok_def)
  moreover from C3_second_sweep [OF run_offline run_online] pk
  have "(42, Reminder task7 ''24h'', True) \<in> set [(42, Reminder task7 ''24h'', True)]"
    by (simp add: online_def)
  ultimately show ?thesis using run_online run_again run_offline pk by simp
qed

text \<open>
  Claim C3 as stated fails: in the first run the send for task 7 raises, so no record is
  written; the second run, at the same instant, sends the reminder again and it is
  delivered.
\<close>

theorem C3_second_sweep_counterexample:
  "snd (check_upcoming_deadlines offline inserts_ok 0 store0) = [(42, Reminder task7 ''24h'', False)]
   \<and> snd (check_upcoming_deadlines online inserts_ok 0
         (fst (check_upcoming_deadlines offline inserts_ok 0 store0)))
       = [(42, Reminder task7 ''24h'', True)]"
  by (simp add: run_offline run_online)

section \<open>Daily summary\<close>

lemma set_get_tasks_today:
  "set (get_tasks_today db now tid) =
     {t \<in> set (tasks db). task_team_id t = tid \<and> due_today now t
        \<and> status t \<notin> {''done'', ''cancelled''}}"
  by (auto simp: get_tasks_today_def due_today_def)

lemma set_get_overdue_tasks:
  "set (get_overdue_tasks db now) =
     {t \<in> set (tasks db). status t \<in> {''todo'', ''in_progress''} \<and> overdue now t}"
  by (auto simp: get_overdue_tasks_def overdue_def)

lemma map_of_map_upd:
  "map_of (map (\<lambda>(k, vs). if k = uid then (k, vs @ [v]) else (k, vs)) d) k
     = (if k = uid then map_option (\<lambda>vs. vs @ [v]) (map_of d k) else map_of d k)"
  by (induction d) auto

lemma keys_map_upd:
  "map fst (map (\<lambda>(k, vs). if k = uid then (k, vs @ [v]) else (k, vs)) d) = map fst d"
  by (simp add: case_prod_beta)

lemma keys_dict_append:
  "map fst (dict_append uid v d) = (if uid \<in> set (map fst d) then map fst d else map fst d @ [uid])"
  by (simp add: dict_append_def Let_def keys_map_upd del: map_map)

lemma distinct_dict_append:
  "distinct (map fst d) \<Longrightarrow> distinct (map fst (dict_append uid v d))"
  by (simp add: keys_dict_append)

lemma teams_of_dict_append:
  "teams_of (dict_append uid v d) k = teams_of d k \<union> (if k = uid then {v} else {})"
proof (cases "uid \<in> set (map fst d)")
  case True
  then obtain vs where "map_of d uid = Some vs"
    by (metis not_Some_eq map_of_eq_None_iff set_map)
  with True show ?thesis
    by (auto simp: teams_of_def dict_append_def map_of_map_upd split: option.splits)
next
  case False
  then have "map_of d uid = None" by (simp add: map_of_eq_None_iff)
  with False show ?thesis
    by (auto simp: teams_of_def dict_append_def map_of_map_upd split: option.splits)
qed

lemma group_rows_keys:
  "distinct (map fst d) \<Longrightarrow> distinct (map fst (group_rows rows d))"
  by (induction rows d rule: group_rows.induct) (simp_all add: distinct_dict_append)

lemma group_rows_teams:
  "teams_of (group_rows rows d) k = teams_of d k \<union> {(tid, nm). (k, tid, nm) \<in> set rows}"
  by (induction rows d rule: group_rows.induct) (auto simp: teams_of_dict_append)

lemma set_all_members:
  "set (all_members db) =
     {(member_user_id m, team_id tm, name tm) | m tm.
        m \<in> set (team_members db) \<and> tm \<in> set (teams db) \<and> member_team_id m = team_id tm}"
  by (auto simp: all_members_def)

lemma user_teams_entry:
  assumes "(uid, tms) \<in> set (user_teams fetch_ok db)"
  shows "set tms = {(team_id tm, name tm) | m tm.
           m \<in> set (team_members db) \<and> tm \<in> set (teams db)
           \<and> member_user_id m = uid \<and> member_team_id m = team_id tm}"
proof -
  from assms have mem: "(uid, tms) \<in> set (group_rows (all_members db) [])"
    by (simp add: user_teams_def split: if_splits)
  have "distinct (map fst (group_rows (all_members db) []))" by (rule group_rows_keys) simp
  with mem have "map_of (group_rows (all_members db) []) uid = Some tms" by simp
  then have "set tms = teams_of (group_rows (all_members db) []) uid" by (simp add: teams_of_def)
  also have "\<dots> = teams_of [] uid \<union> {(tid, nm). (uid, tid, nm) \<in> set (all_members db)}"
    by (rule group_rows_teams)
  also have "\<dots> = {(tid, nm). (uid, tid, nm) \<in> set (all_members db)}"
    by (simp add: teams_of_def)
  finally show ?thesis by (auto simp: set_all_members)
qed

lemma user_teams_distinct: "distinct (map fst (user_teams fetch_ok db))"
  by (simp add: user_teams_def group_rows_keys)

lemma today_sections_flag:
  "snd (today_sections db now uid tms st) \<longleftrightarrow>
     snd st \<or> (\<exists>(tid, nm) \<in> set tms. \<exists>t \<in> set (get_tasks_today db now tid). assignee_id t = Some uid)"
  by (induction db now uid tms st rule: today_sections.induct)
     (auto simp: Let_def filter_empty_conv)

lemma today_sections_overdue:
  "overdue_lines (Summary (fst (today_sections db now uid tms st)))
     = overdue_lines (Summary (fst st))"
  by (induction db now uid tms st rule: today_sections.induct)
     (auto simp: Let_def comp_def)

lemma overdue_section_flag:
  "snd (overdue_section db now uid st) \<longleftrightarrow>
     snd st \<or> (\<exists>t \<in> set (get_overdue_tasks db now). assignee_id t = Some uid)"
  by (cases st) (auto simp: overdue_section_def Let_def filter_empty_conv)

lemma overdue_lines_map: "overdue_lines (Summary (map OverdueLine ts)) = ts"
  by (induction ts) auto

lemma overdue_lines_append:
  "overdue_lines (Summary (a @ b)) = overdue_lines (Summary a) @ overdue_lines (Summary b)"
  by simp

lemma overdue_lines_header:
  "overdue_lines (Summary (OverdueHeader # ls)) = overdue_lines (Summary ls)"
  by simp

lemma overdue_section_lines:
  "length (overdue_lines (Summary (fst (overdue_section db now uid st))))
     \<le> length (overdue_lines (Summary (fst st))) + 5"
  by (cases st)
     (simp add: overdue_section_def Let_def overdue_lines_append overdue_lines_header
        overdue_lines_map del: overdue_lines.simps)

lemma summary_for_user_sent:
  assumes "(c, m, r) \<in> set (summary_for_user send db now uid tms)"
  shows "c = uid \<and> length (overdue_lines m) \<le> 5"
proof -
  obtain msg h where eq: "overdue_section db now uid
      (today_sections db now uid tms ([], False)) = (msg, h)"
    by (cases "overdue_section db now uid (today_sections db now uid tms ([], False))") auto
  have "length (overdue_lines (Summary msg)) \<le> length (overdue_lines (Summary [])) + 5"
    using overdue_section_lines [of db now uid "today_sections db now uid tms ([], False)"]
    by (simp only: today_sections_overdue eq fst_conv)
  then have "length (overdue_lines (Summary msg)) \<le> 5" by simp
  with assms eq show ?thesis
    by (simp add: summary_for_user_def del: overdue_lines.simps split: if_splits)
qed

lemma summary_for_user_nonempty:
  "summary_for_user send db now uid tms \<noteq> [] \<longleftrightarrow>
     (\<exists>(tid, nm) \<in> set tms. \<exists>t \<in> set (get_tasks_today db now tid). assignee_id t = Some uid)
     \<or> (\<exists>t \<in> set (get_overdue_tasks db now). assignee_id t = Some uid)"
proof -
  have "summary_for_user send db now uid tms \<noteq> [] \<longleftrightarrow>
      snd (overdue_section db now uid (today_sections db now uid tms ([], False)))"
    by (simp add: summary_for_user_def split: prod.splits)
  then show ?thesis by (simp add: overdue_section_flag today_sections_flag)
qed

lemma summary_loop_set:
  "set (summary_loop send db now d)
     = (\<Union>(uid, tms) \<in> set d. set (summary_for_user send db now uid tms))"
  by (induction send db now d rule: summary_loop.induct) auto

lemma user_teams_backlog:
  "user_teams True store_backlog = [(1, [(1, ''Alpha''), (2, ''Legacy'')]), (42, [(1, ''Alpha'')])]"
  by (simp add: user_teams_def all_members_def store_backlog_def store0_def alpha_def legacy_def
      dict_append_def)

lemma summary_backlog:
  "send_daily_summary True online 118800000000 store_backlog =
     [(42, Summary (TeamHeader ''Alpha'' # TodayLine task7 # OverdueHeader #
          map (\<lambda>i. OverdueLine (task7\<lparr>task_id := i, deadline := Some i\<rparr>)) [1..5]), True)]"
  unfolding send_daily_summary_def user_teams_backlog
  by (simp add: summary_for_user_def overdue_section_def get_tasks_today_def
      get_overdue_tasks_def store_backlog_def store0_def task7_def deadline_key_def date_of_def
      online_def upto.simps)


lemma user_teams_archived:
  "user_teams True store_archived = [(1, [(1, ''Alpha''), (2, ''Legacy'')]), (42, [(1, ''Alpha'')])]"
  by (simp add: user_teams_def all_members_def store_archived_def handle_status_callback_def
      update_task_status_def get_task_def store0_def alpha_def legacy_def dict_append_def task7_def)

lemma tasks_archived:
  "tasks store_archived = [task7\<lparr>status := ''archived'', updated_at := 50\<rparr>]"
  by (simp add: store_archived_def handle_status_callback_def update_task_status_def get_task_def
      store0_def task7_def set_status_def)

text \<open>
  Claim C7, as the code has it. For every enumerated user (a key of the grouping of the
  membership rows), a summary is sent to the user if and only if a task is assigned to
  them that is due today in one of their teams with a status other than \<open>done\<close> and
  \<open>cancelled\<close>, or that is overdue with status \<open>todo\<close> or \<open>in_progress\<close>. Every summary
  that is sent lists at most 5 overdue tasks. When every task's status is one of the four
  statuses of the data model, that condition is the claim's: the user has a qualifying
  task.
\<close>

theorem C7_digest_sent_iff_qualifying:
  assumes user: "(uid, tms) \<in> set (user_teams fetch_ok db)"
  shows "((\<exists>m r. (uid, m, r) \<in> set (send_daily_summary fetch_ok send now db))
            \<longleftrightarrow> digest_task db now uid)
       \<and> (\<forall>(c, m, r) \<in> set (send_daily_summary fetch_ok send now db).
            length (overdue_lines m) \<le> 5)
       \<and> ((\<forall>t \<in> set (tasks db). status t \<in> statuses)
            \<longrightarrow> (digest_task db now uid \<longleftrightarrow> qualifying db now uid))"
proof (intro conjI)
  have only: "\<And>tms'. (uid, tms') \<in> set (user_teams fetch_ok db) \<Longrightarrow> tms' = tms"
    using user user_teams_distinct [of fetch_ok db] by (meson eq_key_imp_eq_value)
  have "(\<exists>m r. (uid, m, r) \<in> set (send_daily_summary fetch_ok send now db))
          \<longleftrightarrow> summary_for_user send db now uid tms \<noteq> []"
  proof
    assume "\<exists>m r. (uid, m, r) \<in> set (send_daily_summary fetch_ok send now db)"
    then obtain m r c tms' where "(c, tms') \<in> set (user_teams fetch_ok db)"
      and e: "(uid, m, r) \<in> set (summary_for_user send db now c tms')"
      by (auto simp: send_daily_summary_def summary_loop_set)
    moreover from summary_for_user_sent [OF e] have "c = uid" by simp
    ultimately show "summary_for_user send db now uid tms \<noteq> []" using only by auto
  next
    assume "summary_for_user send db now uid tms \<noteq> []"
    then obtain e where e: "e \<in> set (summary_for_user send db now uid tms)"
      by (cases "summary_for_user send db now uid tms") auto
    obtain c m r where "e = (c, m, r)" by (cases e) auto
    with e summary_for_user_sent [of c m r send db now uid tms]
    have "(uid, m, r) \<in> set (summary_for_user send db now uid tms)" by simp
    with user show "\<exists>m r. (uid, m, r) \<in> set (send_daily_summary fetch_ok send now db)"
      by (auto simp: send_daily_summary_def summary_loop_set)
  qed
  also have "\<dots> \<longleftrightarrow>
     (\<exists>(tid, nm) \<in> set tms. \<exists>t \<in> set (get_tasks_today db now tid). assignee_id t = Some uid)
     \<or> (\<exists>t \<in> set (get_overdue_tasks db now). assignee_id t = Some uid)"
    by (rule summary_for_user_nonempty)
  also have "\<dots> \<longleftrightarrow> digest_task db now uid"
  proof -
    have today: "(\<exists>(tid, nm) \<in> set tms. \<exists>t \<in> set (get_tasks_today db now tid).
          assignee_id t = Some uid)
        \<longleftrightarrow> (\<exists>t \<in> set (tasks db). assignee_id t = Some uid
              \<and> due_today now t \<and> member_of db uid (task_team_id t)
              \<and> status t \<notin> {''done'', ''cancelled''})"
      unfolding user_teams_entry [OF user] set_get_tasks_today member_of_def
      by fastforce
    have over: "(\<exists>t \<in> set (get_overdue_tasks db now). assignee_id t = Some uid)
        \<longleftrightarrow> (\<exists>t \<in> set (tasks db). assignee_id t = Some uid
              \<and> overdue now t \<and> status t \<in> {''todo'', ''in_progress''})"
      unfolding set_get_overdue_tasks by auto
    show ?thesis unfolding today over digest_task_def by blast
  qed
  finally show "(\<exists>m r. (uid, m, r) \<in> set (send_daily_summary fetch_ok send now db))
            \<longleftrightarrow> digest_task db now uid" .
  show "\<forall>(c, m, r) \<in> set (send_daily_summary fetch_ok send now db).
            length (overdue_lines m) \<le> 5"
    using summary_for_user_sent
    by (fastforce simp: send_daily_summary_def summary_loop_set)
  show "(\<forall>t \<in> set (tasks db). status t \<in> statuses)
            \<longrightarrow> (digest_task db now uid \<longleftrightarrow> qualifying db now uid)"
  proof
    assume enum: "\<forall>t \<in> set (tasks db). status t \<in> statuses"
    have nt: "\<And>t. t \<in> set (tasks db) \<Longrightarrow>
        status t \<notin> {''done'', ''cancelled''} \<longleftrightarrow> non_terminal (status t)"
      using enum by (auto simp: statuses_def non_terminal_def)
    have nt': "\<And>t. status t \<in> {''todo'', ''in_progress''} \<longleftrightarrow> non_terminal (status t)"
      by (simp add: non_terminal_def)
    show "digest_task db now uid \<longleftrightarrow> qualifying db now uid"
      unfolding digest_task_def qualifying_def nt' using nt by blast
  qed
qed

theorem C7_digest_sent_iff_qualifying_witness:
  "set (map status (tasks store_backlog)) \<subseteq> statuses
   \<and> (42, [(1, ''Alpha'')]) \<in> set (user_teams True store_backlog)
   \<and> digest_task store_backlog 118800000000 42
   \<and> qualifying store_backlog 118800000000 42
   \<and> (\<exists>m r. (42, m, r) \<in> set (send_daily_summary True online 118800000000 store_backlog))
   \<and> (1, [(1, ''Alpha''), (2, ''Legacy'')]) \<in> set (user_teams True store_backlog)
   \<and> \<not> digest_task store_backlog 118800000000 1
   \<and> \<not> (\<exists>m r. (1, m, r) \<in> set (send_daily_summary True online 118800000000 store_backlog))"
proof -
  have enum: "\<forall>t \<in> set (tasks store_backlog). status t \<in> statuses"
    by (simp add: store_backlog_def task7_def statuses_def upto.simps)
  have sub: "set (map status (tasks store_backlog)) \<subseteq> statuses"
    using enum by auto
  have u42: "(42, [(1, ''Alpha'')]) \<in> set (user_teams True store_backlog)"
    and u1: "(1, [(1, ''Alpha''), (2, ''Legacy'')]) \<in> set (user_teams True store_backlog)"
    by (simp_all add: user_teams_backlog)
  have q42: "qualifying store_backlog 118800000000 42"
    by (simp add: qualifying_def store_backlog_def task7_def non_terminal_def overdue_def)
  have q1: "\<not> qualifying store_backlog 118800000000 1"
    by (simp add: qualifying_def store_backlog_def task7_def upto.simps)
  from C7_digest_sent_iff_qualifying [OF u42, of online 118800000000] C7_digest_sent_iff_qualifying [OF u1, of online 118800000000]
    enum sub u42 u1 q42 q1
  show ?thesis by simp
qed

text \<open>
  Claim C7 as stated fails on a store with a status outside the four: after the payload
  \<open>archived\<close> for task 7, user 42 has no task with status \<open>todo\<close> or \<open>in_progress\<close>, yet on
  the task's day the summary is sent and lists the task; a day later the task is overdue
  and neither \<open>done\<close> nor \<open>cancelled\<close>, yet no summary is sent.
\<close>

theorem C7_unlisted_status_counterexample:
  "(42, [(1, ''Alpha'')]) \<in> set (user_teams True store_archived)
   \<and> tasks store_archived = [task7\<lparr>status := ''archived'', updated_at := 50\<rparr>]
   \<and> \<not> qualifying store_archived 118800000000 42
   \<and> send_daily_summary True online 118800000000 store_archived
       = [(42, Summary [TeamHeader ''Alpha'',
                        TodayLine (task7\<lparr>status := ''archived'', updated_at := 50\<rparr>)], True)]
   \<and> ''archived'' \<notin> {''done'', ''cancelled''}
   \<and> overdue 205200000000 (task7\<lparr>status := ''archived'', updated_at := 50\<rparr>)
   \<and> send_daily_summary True online 205200000000 store_archived = []"
proof -
  have q: "\<not> qualifying store_archived 118800000000 42"
    by (simp add: qualifying_def tasks_archived non_terminal_def)
  have s1: "send_daily_summary True online 118800000000 store_archived
       = [(42, Summary [TeamHeader ''Alpha'',
                        TodayLine (task7\<lparr>status := ''archived'', updated_at := 50\<rparr>)], True)]"
    unfolding send_daily_summary_def user_teams_archived
    by (simp add: summary_for_user_def overdue_section_def get_tasks_today_def
        get_overdue_tasks_def tasks_archived task7_def deadline_key_def date_of_def online_def)
  have s2: "send_daily_summary True online 205200000000 store_archived = []"
    unfolding send_daily_summary_def user_teams_archived
    by (simp add: summary_for_user_def overdue_section_def get_tasks_today_def
        get_overdue_tasks_def tasks_archived task7_def deadline_key_def date_of_def online_def)
  have o: "overdue 205200000000 (task7\<lparr>status := ''archived'', updated_at := 50\<rparr>)"
    by (simp add: overdue_def task7_def)
  from q s1 s2 o tasks_archived show ?thesis by (simp add: user_teams_archived)
qed

section \<open>Wizard: the deadline step\<close>

lemma try_formats_first_parse:
  "try_formats strptime now txt fmts =
     (case first_parse strptime txt fmts of
        None \<Rightarrow> None
      | Some dt \<Rightarrow> if dt < now then None else Some dt)"
  by (induction fmts) (auto split: option.splits)

lemma dropWhile_trimmed:
  assumes "xs = [] \<or> \<not> P (hd xs)"
  shows "dropWhile P (rev (dropWhile P (rev xs))) = rev (dropWhile P (rev xs))"
proof (cases "rev (dropWhile P (rev xs))")
  case Nil
  show ?thesis unfolding Nil by simp
next
  case (Cons y ys)
  have "xs = rev (dropWhile P (rev xs)) @ rev (takeWhile P (rev xs))"
    by (metis rev_append rev_rev_ident takeWhile_dropWhile_id)
  with Cons have "hd xs = y" and "xs \<noteq> []" by (metis append_Cons list.sel(1), auto)
  with assms have "\<not> P y" by auto
  show ?thesis unfolding Cons using \<open>\<not> P y\<close> by simp
qed

lemma strip_strip: "strip (strip s) = strip s"
proof -
  have "dropWhile is_space s = [] \<or> \<not> is_space (hd (dropWhile is_space s))"
    using hd_dropWhile by blast
  from dropWhile_trimmed [of "dropWhile is_space s" is_space, OF this] show ?thesis
    by (simp add: strip_def dropWhile_idem)
qed

lemma strip_a: "strip ''31.12.2020 10:00'' = ''31.12.2020 10:00''"
  by (simp add: strip_def is_space_def)

lemma strip_b: "strip ''20.02.2026 18:00'' = ''20.02.2026 18:00''"
  by (simp add: strip_def is_space_def)


text \<open>
  Claim C6, as the code has it: in the deadline step, a text whose parsed date is
  strictly before the current instant is rejected; the validator returns no date, and
  the wizard asks again, stays in \<open>STATE_DEADLINE\<close> and leaves the draft as it was. A
  parsed date that is not before the current instant, the current instant included, is
  accepted: the validator returns it and the wizard stores it and moves on to
  \<open>STATE_PRIORITY\<close>.
\<close>

theorem C6_past_date_rejected:
  "first_parse strptime (strip message_text) formats = Some dt \<Longrightarrow>
   (dt < now \<longrightarrow>
      validate_deadline strptime now (strip message_text) = None
      \<and> task_deadline_received strptime now message_text new_task
          = (STATE_DEADLINE, new_task, DeadlineRejected))
   \<and> (\<not> dt < now \<longrightarrow>
      validate_deadline strptime now (strip message_text) = Some dt
      \<and> task_deadline_received strptime now message_text new_task
          = (STATE_PRIORITY, new_task(''deadline'' \<mapsto> TimeField dt), AskPriority))"
  by (simp add: task_deadline_received_def validate_deadline_def try_formats_first_parse strip_strip)

theorem C6_past_date_rejected_witness:
  "first_parse strptime_example (strip ''31.12.2020 10:00'') formats = Some 1609408800000000
   \<and> (1609408800000000 :: int) < 1771610400000000
   \<and> validate_deadline strptime_example 1771610400000000 (strip ''31.12.2020 10:00'') = None
   \<and> task_deadline_received strptime_example 1771610400000000 ''31.12.2020 10:00'' draft0
       = (STATE_DEADLINE, draft0, DeadlineRejected)
   \<and> first_parse strptime_example (strip ''20.02.2026 18:00'') formats = Some 1771610400000000
   \<and> \<not> (1771610400000000 :: int) < 1609408800000000
   \<and> task_deadline_received strptime_example 1609408800000000 ''20.02.2026 18:00'' draft0
       = (STATE_PRIORITY, draft0(''deadline'' \<mapsto> TimeField 1771610400000000), AskPriority)"
proof -
  have p: "first_parse strptime_example (strip ''31.12.2020 10:00'') formats = Some 1609408800000000"
    by (simp add: strip_a formats_def strptime_example_def)
  have q: "first_parse strptime_example (strip ''20.02.2026 18:00'') formats = Some 1771610400000000"
    by (simp add: strip_b formats_def strptime_example_def)
  from C6_past_date_rejected [OF p, of 1771610400000000 draft0] C6_past_date_rejected [OF q, of 1609408800000000 draft0] p q
  show ?thesis by simp
qed

text \<open>
  Claim C6 as stated fails at the boundary: a date equal to the current instant is not
  rejected. The validator returns it and the wizard stores it and moves on to
  \<open>STATE_PRIORITY\<close>.
\<close>

theorem C6_date_equal_to_now_counterexample:
  "first_parse strptime_example (strip ''20.02.2026 18:00'') formats = Some 1771610400000000
   \<and> validate_deadline strptime_example 1771610400000000 ''20.02.2026 18:00''
       = Some 1771610400000000
   \<and> task_deadline_received strptime_example 1771610400000000 ''20.02.2026 18:00'' draft0
       = (STATE_PRIORITY, draft0(''deadline'' \<mapsto> TimeField 1771610400000000), AskPriority)"
  by (simp add: task_deadline_received_def validate_deadline_def strip_b formats_def
      strptime_example_def)


section \<open>Status callbacks\<close>

text \<open>
  The status callback, when the task exists and the update executes, makes one
  notification attempt to the task's author if the user is not the author, and none if
  the user is the author.
\<close>

lemma status_callback_notifies:
  "get_task db tid = Some t \<Longrightarrow>
   snd (snd (handle_status_callback True send now user tid s db))
     = (if author_id t \<noteq> user
        then [(author_id t, StatusChanged (set_status now s t) s,
               send (author_id t) (StatusChanged (set_status now s t) s))]
        else [])"
  by (simp add: handle_status_callback_def update_task_status_def get_task_def
      find_map_task_id task_id_set_status notify_status_changed_def set_status_def)


text \<open>
  Claim C8 on the cancel callback: user 42 cancels task 7, written by user 1. The task's
  status becomes \<open>cancelled\<close> and no notification attempt is made; the same transition
  through the status callback makes one attempt to user 1.
\<close>

theorem C8_cancel_sends_no_notice:
  "get_task store0 7 = Some task7 \<and> author_id task7 = 1
   \<and> map status (tasks (fst (handle_cancel_task_callback True online 200 42 7 store0)))
       = [''cancelled'']
   \<and> snd (snd (handle_cancel_task_callback True online 200 42 7 store0)) = []
   \<and> snd (snd (handle_status_callback True online 200 42 7 ''cancelled'' store0))
       = [(1, StatusChanged (set_status 200 ''cancelled'' task7) ''cancelled'', True)]"
proof -
  have a: "author_id task7 = 1" by (simp add: task7_def)
  have c: "map status (tasks (fst (handle_cancel_task_callback True online 200 42 7 store0)))
       = [''cancelled'']"
    by (simp add: handle_cancel_task_callback_def update_task_status_def store0_def task7_def
        set_status_def)
  have n: "snd (snd (handle_cancel_task_callback True online 200 42 7 store0)) = []"
    by (simp add: handle_cancel_task_callback_def)
  have s: "snd (snd (handle_status_callback True online 200 42 7 ''cancelled'' store0))
       = [(1, StatusChanged (set_status 200 ''cancelled'' task7) ''cancelled'', True)]"
    by (simp add: status_callback_notifies [OF get_task_store0] a online_def)
  from get_task_store0 a c n s show ?thesis by simp
qed

end
